theory Spec2Isabelle
  imports Main "HOL-Library.Sublist"
begin

section \<open>Shallow embedding of scrape\_stocks.py\<close>

text \<open>
  The program keeps three kinds of pipe-delimited stores: the short-volume store written by
  class \<open>REGSHO\<close>, one price-history store per symbol written by \<open>STOCKS.update\<close>, and a
  symbol metadata store written by \<open>STOCKS.download_symbols\<close>.

  Conventions of the embedding:
  \<^item> a calendar day (a \<open>datetime\<close> at midnight, a \<open>Timestamp\<close> of a \<open>DatetimeIndex\<close>) is its
    proleptic Gregorian ordinal, an \<open>int\<close> (\<open>date.toordinal()\<close>); adding \<open>timedelta(days=1)\<close>
    is \<open>+ 1\<close>; \<open>strftime\<close> followed by the parse of the same text by pandas is the
    identity on days;
  \<^item> text is ASCII: one \<open>char\<close> is one byte and one code point;
  \<^item> every exception of the source is a value of type \<open>error\<close>, and a function that can
    raise returns \<open>error + 'a\<close> with \<open>Inl\<close> for the raise;
  \<^item> calls into libraries whose result depends on the outside world (the HTTP feed, the
    quotes provider, the clock) or on a data table of the library (the holiday calendar,
    \<open>strptime\<close>) are parameters of the functions that make them.
\<close>

subsection \<open>Errors and dates\<close>

datatype error =
    RequestError        \<comment> \<open>\<open>requests.get\<close> or the quotes provider failed\<close>
  | DecodeError         \<comment> \<open>\<open>content.decode('utf-8')\<close> failed\<close>
  | ParserError         \<comment> \<open>\<open>pd.read_csv\<close> failed\<close>
  | IndexError          \<comment> \<open>\<open>lines[-1]\<close>, \<open>iloc[0]\<close>, \<open>index[0]\<close> on an empty sequence\<close>
  | ValueError          \<comment> \<open>\<open>strptime\<close> on text that is not a date\<close>
  | KeyError            \<comment> \<open>\<open>Index.drop\<close> of a label that is not in the index, a missing dict key\<close>
  | AttributeError      \<comment> \<open>a string method called on a value that is not a string\<close>
  | InvalidIndexError   \<comment> \<open>\<open>pd.concat\<close> has to reindex a frame whose index has duplicates\<close>

type_synonym date = int

text \<open>\<open>datetime\<close>'s own day count: \<open>_days_before_year\<close>, \<open>_is_leap\<close>, \<open>_days_before_month\<close>
  and \<open>_ymd2ord\<close>.\<close>

definition is_leap :: "int \<Rightarrow> bool" where
  "is_leap y = (y mod 4 = 0 \<and> (y mod 100 \<noteq> 0 \<or> y mod 400 = 0))"

definition days_before_year :: "int \<Rightarrow> int" where
  "days_before_year y = (y - 1) * 365 + (y - 1) div 4 - (y - 1) div 100 + (y - 1) div 400"

definition days_before_month :: "int \<Rightarrow> nat \<Rightarrow> int" where
  "days_before_month y m =
     [0, 31, 59, 90, 120, 151, 181, 212, 243, 273, 304, 334] ! (m - 1)
     + (if 2 < m \<and> is_leap y then 1 else 0)"

definition ymd2ord :: "int \<Rightarrow> nat \<Rightarrow> nat \<Rightarrow> date" where
  "ymd2ord y m d = days_before_year y + days_before_month y m + int d"

text \<open>\<open>date.weekday()\<close>: Monday is 0, Sunday is 6.\<close>

definition weekday :: "date \<Rightarrow> int" where
  "weekday d = (d + 6) mod 7"

subsection \<open>String helpers of the Python runtime\<close>




text \<open>\<open>sep.join(words)\<close>.\<close>

fun str_join :: "string \<Rightarrow> string list \<Rightarrow> string" where
  "str_join sep [] = []"
| "str_join sep [w] = w"
| "str_join sep (w # v # ws) = w @ sep @ str_join sep (v # ws)"


text \<open>The line boundaries of \<open>str.splitlines\<close> on ASCII: \<open>\n\<close>, \<open>\r\<close>, \<open>\r\n\<close> (one boundary),
  \<open>\v\<close>, \<open>\f\<close>, \<open>0x1C\<close>, \<open>0x1D\<close>, \<open>0x1E\<close>.\<close>

definition is_linebreak :: "char \<Rightarrow> bool" where
  "is_linebreak c = (c \<in> set [CHR 0x0A, CHR 0x0B, CHR 0x0C, CHR 0x0D,
                              CHR 0x1C, CHR 0x1D, CHR 0x1E])"

text \<open>\<open>s.splitlines()\<close>: the lines without their terminators; a terminator at the very end
  opens no further line. \<open>after_cr\<close> says that the character just read was a carriage
  return that closed a line, so that a line feed right after it belongs to the same
  boundary; \<open>cur\<close> is the line being read, reversed. The text mode of \<open>open\<close> translates
  \<open>\r\n\<close> and \<open>\r\<close> to \<open>\n\<close> before \<open>splitlines\<close> sees them, which gives the same lines.\<close>

fun splitlines_from :: "bool \<Rightarrow> string \<Rightarrow> string \<Rightarrow> string list" where
  "splitlines_from after_cr cur [] = (if cur = [] then [] else [rev cur])"
| "splitlines_from after_cr cur (c # cs) =
     (if c = CHR 0x0A \<and> after_cr then splitlines_from False cur cs
      else if is_linebreak c then rev cur # splitlines_from (c = CHR 0x0D) [] cs
      else splitlines_from False (c # cur) cs)"

definition splitlines :: "string \<Rightarrow> string list" where
  "splitlines s = splitlines_from False [] s"

subsection \<open>\<open>STOCKS.sanitize\<close> and the metadata record\<close>






subsection \<open>\<open>get_last_date\<close> of both classes\<close>

text \<open>
  \<^verbatim>\<open>
  with open(self.filename, 'r') as f:
      f.seek(0, 2); fsize = f.tell()
      f.seek(max (fsize-4096, 0), 0)
      lines = f.read().splitlines()
      last_line = lines[-1]
  last_date = last_line.split(self.delimiter)[0]
  last_date = datetime.strptime(last_date, fmt)
  \<close>
  \<open>content\<close> is the text of the file, \<open>strptime\<close> the parser for the class's format
  (\<open>%Y%m%d\<close> in \<open>REGSHO\<close>, \<open>%Y-%m-%d\<close> in \<open>STOCKS\<close>), \<open>None\<close> where it raises.
  The first field of \<open>split\<close> on a one-character separator is the text before its first
  occurrence.
\<close>

definition get_last_date :: "(string \<Rightarrow> date option) \<Rightarrow> char \<Rightarrow> string \<Rightarrow> error + date" where
  "get_last_date strptime delimiter content =
     (let fsize = int (length content);
          lines = splitlines (drop (nat (max (fsize - 4096) 0)) content)
      in if lines = [] then Inl IndexError
         else
           (let last_line = last lines;
                last_date = takeWhile (\<lambda>c. c \<noteq> delimiter) last_line
            in case strptime last_date of
                 None \<Rightarrow> Inl ValueError
               | Some d \<Rightarrow> Inr d))"

text \<open>The terminators that can close the last line of a text.\<close>

definition is_terminator :: "string \<Rightarrow> bool" where
  "is_terminator t = (t = [CHR 0x0D, CHR 0x0A] \<or> (length t = 1 \<and> is_linebreak (hd t)))"


subsection \<open>The stores as lines\<close>

text \<open>
  The synchronizers below see a store as the list of its lines, each line the list of its
  fields (\<open>to_csv\<close> writes one line per row, the fields joined by the delimiter), and
  \<open>None\<close> when the file does not exist. \<open>store_last_date\<close> is \<open>get_last_date\<close> on such a
  store: the first field of the last line, parsed. \<open>file_text\<close> is the text of the file
  these lines make; lemma \<open>get_last_date_file_text\<close> relates the two readings.
\<close>

type_synonym line = "string list"

definition store_last_date :: "(string \<Rightarrow> date option) \<Rightarrow> line list \<Rightarrow> error + date" where
  "store_last_date strptime lines =
     (if lines = [] then Inl IndexError
      else
        (let last_line = last lines;
             last_date = (case last_line of [] \<Rightarrow> [] | field # _ \<Rightarrow> field)
         in case strptime last_date of
              None \<Rightarrow> Inl ValueError
            | Some d \<Rightarrow> Inr d))"

definition file_text :: "char \<Rightarrow> line list \<Rightarrow> string" where
  "file_text delimiter lines = concat (map (\<lambda>fields. str_join [delimiter] fields @ [CHR 0x0A]) lines)"

subsection \<open>\<open>trading_dates\<close>\<close>

text \<open>
  \<^verbatim>\<open>
  ust_calendar = calendar.USTradingCalendar()
  dates = pd.bdate_range(start=start_date, end=end_date)
  holidays = ust_calendar.holidays(start=start_date, end=end_date)
  return dates.drop(holidays)
  \<close>
  \<open>bdate_range\<close> is the Mondays to Fridays of the closed range, ascending. The calendar of
  the \<open>xone\<close> library is a parameter: the list of the days it observes as holidays;
  \<open>holidays\<close> returns those within the range. \<open>Index.drop\<close> raises \<open>KeyError\<close> when a label
  to drop is not in the index, and removes the labels otherwise.
\<close>

definition bdate_range :: "date \<Rightarrow> date \<Rightarrow> date list" where
  "bdate_range start_date end_date = filter (\<lambda>d. weekday d < 5) [start_date..end_date]"

definition holidays :: "date list \<Rightarrow> date \<Rightarrow> date \<Rightarrow> date list" where
  "holidays ust_calendar start_date end_date =
     filter (\<lambda>h. start_date \<le> h \<and> h \<le> end_date) ust_calendar"

definition index_drop :: "date list \<Rightarrow> date list \<Rightarrow> error + date list" where
  "index_drop index labels =
     (if set labels \<subseteq> set index then Inr (filter (\<lambda>d. d \<notin> set labels) index)
      else Inl KeyError)"

definition trading_dates :: "date list \<Rightarrow> date \<Rightarrow> date \<Rightarrow> error + date list" where
  "trading_dates ust_calendar start_date end_date =
     (let dates = bdate_range start_date end_date;
          holidays = holidays ust_calendar start_date end_date
      in index_drop dates holidays)"

text \<open>A trading day: Monday to Friday and not a holiday of the calendar.\<close>

definition trading_day :: "date list \<Rightarrow> date \<Rightarrow> bool" where
  "trading_day ust_calendar d = (weekday d < 5 \<and> d \<notin> set ust_calendar)"

subsection \<open>Data frames of the short-volume feed\<close>

text \<open>
  A frame read by \<open>pd.read_csv\<close> has its column names and its rows; a row gives the text
  of its cells by column, and a column with no entry in a row is \<open>NaN\<close> there.
\<close>

type_synonym row = "(string \<times> string) list"

record table =
  columns :: "string list"
  rows :: "row list"

definition restrict_row :: "string list \<Rightarrow> row \<Rightarrow> row" where
  "restrict_row cols r = filter (\<lambda>(c, v). c \<in> set cols) r"

text \<open>\<open>datum.dropna()\<close>: the rows with no \<open>NaN\<close> in any column.\<close>

definition dropna :: "table \<Rightarrow> table" where
  "dropna t = t\<lparr>rows := filter (\<lambda>r. list_all (\<lambda>c. map_of r c \<noteq> None) (columns t)) (rows t)\<rparr>"

text \<open>The elements of a list in order of first appearance (\<open>remdups\<close> keeps the last
  occurrence of each, so it runs on the reversed list).\<close>

definition unique :: "'a list \<Rightarrow> 'a list" where
  "unique xs = rev (remdups (rev xs))"

text \<open>\<open>pd.concat(data)\<close> along the rows: the union of the columns in order of first
  appearance, all rows in order, each with \<open>NaN\<close> in the columns its frame did not have.\<close>

definition pd_concat :: "table list \<Rightarrow> table" where
  "pd_concat data =
     \<lparr>columns = unique (concat (map columns data)),
      rows = concat (map (\<lambda>t. map (restrict_row (columns t)) (rows t)) data)\<rparr>"

text \<open>\<open>data[self.fieldnames]\<close>.\<close>

definition select_columns :: "string list \<Rightarrow> table \<Rightarrow> table" where
  "select_columns cols t = \<lparr>columns = cols, rows = map (restrict_row cols) (rows t)\<rparr>"

text \<open>\<open>data.to_csv(f, header=write_header, index=False, sep=self.delimiter)\<close>: the header
  line when asked for, then one line per row, \<open>NaN\<close> as the empty text.\<close>

definition to_csv :: "table \<Rightarrow> bool \<Rightarrow> line list" where
  "to_csv t header =
     (if header then [columns t] else [])
     @ map (\<lambda>r. map (\<lambda>c. case map_of r c of None \<Rightarrow> [] | Some v \<Rightarrow> v) (columns t)) (rows t)"

subsection \<open>Class \<open>REGSHO\<close>\<close>

definition base_urls :: "string list" where
  "base_urls = [''http://regsho.finra.org/FNYXshvol{}.txt'',
                ''http://regsho.finra.org/FNQCshvol{}.txt'',
                ''http://regsho.finra.org/FNSQshvol{}.txt'']"

definition fieldnames :: "string list" where
  "fieldnames = [''Date'', ''Symbol'', ''ShortVolume'', ''ShortExemptVolume'', ''TotalVolume'',
                 ''Market'']"

text \<open>The earliest data, \<open>'3/1/2011'\<close>, which is also the date \<open>'20110301'\<close> whose write
  carries the header.\<close>

definition earliest :: date where
  "earliest = ymd2ord 2011 3 1"

text \<open>
  \<open>save_data\<close>: \<open>open(self.filename, 'a')\<close> creates the file when it is missing and appends.
\<close>

definition save_data :: "line list option \<Rightarrow> table \<Rightarrow> bool \<Rightarrow> line list option" where
  "save_data store data write_header =
     Some ((case store of None \<Rightarrow> [] | Some lines \<Rightarrow> lines) @ to_csv data write_header)"

text \<open>
  The request loop of \<open>download_data\<close>. \<open>feed base_url date\<close> is the outcome of
  \<^verbatim>\<open>result = requests.get(url); content = result.content.decode('utf-8');
  datum = pd.read_csv(io.StringIO(content), sep='|')\<close>
  for the URL of that venue and date: the frame, or the exception one of the three calls
  raised. Nothing in \<open>download_data\<close> catches it.
\<close>

fun request_all :: "(string \<Rightarrow> date \<Rightarrow> error + table) \<Rightarrow> date \<Rightarrow> string list \<Rightarrow> error + table list" where
  "request_all feed date [] = Inr []"
| "request_all feed date (base_url # urls) =
     (case feed base_url date of
        Inl e \<Rightarrow> Inl e
      | Inr datum \<Rightarrow>
          (case request_all feed date urls of
             Inl e \<Rightarrow> Inl e
           | Inr data \<Rightarrow> Inr (dropna datum # data)))"

text \<open>
  \<open>download_data\<close> returns the new store and \<open>Inl\<close> of the exception, \<open>Inr None\<close> for the
  \<open>return None\<close> of a closed market, or \<open>Inr (Some data)\<close>.
\<close>

definition download_data ::
  "(string \<Rightarrow> date \<Rightarrow> error + table) \<Rightarrow> date \<Rightarrow> line list option
     \<Rightarrow> line list option \<times> (error + table option)" where
  "download_data feed date store =
     (case request_all feed date base_urls of
        Inl e \<Rightarrow> (store, Inl e)
      | Inr frames \<Rightarrow>
          (let data = pd_concat frames
           in if list_ex (\<lambda>col. col \<notin> set (columns data)) fieldnames then (store, Inr None)
              else
                (let data = select_columns fieldnames data
                 in (save_data store data (date = earliest), Inr (Some data)))))"

text \<open>
  The first half of \<open>REGSHO.update\<close>: the start date, the end date from the clock of
  \<open>US/Eastern\<close> (\<open>today\<close> and \<open>hour\<close> of \<open>datetime.now\<close>), and the dates to fetch.
\<close>

definition update_start :: "(string \<Rightarrow> date option) \<Rightarrow> line list option \<Rightarrow> error + date" where
  "update_start strptime store =
     (case store of
        None \<Rightarrow> Inr earliest
      | Some lines \<Rightarrow>
          (case store_last_date strptime lines of
             Inl e \<Rightarrow> Inl e
           | Inr last_date \<Rightarrow> Inr (last_date + 1)))"

definition update_end :: "date \<Rightarrow> nat \<Rightarrow> date" where
  "update_end today hour = (if hour < 20 then today - 1 else today)"

definition update_dates ::
  "(string \<Rightarrow> date option) \<Rightarrow> date list \<Rightarrow> date \<Rightarrow> nat \<Rightarrow> line list option \<Rightarrow> error + date list" where
  "update_dates strptime ust_calendar today hour store =
     (case update_start strptime store of
        Inl e \<Rightarrow> Inl e
      | Inr start_date \<Rightarrow> trading_dates ust_calendar start_date (update_end today hour))"

text \<open>The printed progress.\<close>

datatype message = Closed date | Fetched date | Up_to_date

text \<open>The loop over the dates: an exception of \<open>download_data\<close> ends it.\<close>

fun update_loop ::
  "(string \<Rightarrow> date \<Rightarrow> error + table) \<Rightarrow> date list \<Rightarrow> line list option \<Rightarrow> message list
     \<Rightarrow> line list option \<times> message list \<times> error option" where
  "update_loop feed [] store out = (store, out @ [Up_to_date], None)"
| "update_loop feed (date # dates) store out =
     (case download_data feed date store of
        (store', Inl e) \<Rightarrow> (store', out, Some e)
      | (store', Inr None) \<Rightarrow> update_loop feed dates store' (out @ [Closed date])
      | (store', Inr (Some data)) \<Rightarrow> update_loop feed dates store' (out @ [Fetched date]))"

definition update ::
  "(string \<Rightarrow> date option) \<Rightarrow> date list \<Rightarrow> (string \<Rightarrow> date \<Rightarrow> error + table) \<Rightarrow> date \<Rightarrow> nat
     \<Rightarrow> line list option \<Rightarrow> line list option \<times> message list \<times> error option" where
  "update strptime ust_calendar feed today hour store =
     (case update_dates strptime ust_calendar today hour store of
        Inl e \<Rightarrow> (store, [], Some e)
      | Inr dates \<Rightarrow> update_loop feed dates store [])"


subsection \<open>What a run of \<open>REGSHO.update\<close> writes\<close>






subsection \<open>Class \<open>STOCKS\<close>: the per-symbol history\<close>

text \<open>
  \<open>self.regsho\<close> is the short-volume store as \<open>get_data\<close> read it: one row per line. The
  \<open>Date\<close> of a row is the day its \<open>YYYYMMDD\<close> text denotes; the volumes are integers.
\<close>

record short_row =
  Date :: date
  Symbol :: string
  ShortVolume :: int
  ShortExemptVolume :: int
  TotalVolume :: int
  Market :: string

text \<open>
  A frame of price bars is the list of its rows in order, each the day of its index and
  the bar \<open>'b\<close> (open, high, low, close, volume, dividends, splits). A row of the merged
  frame has the day, the bar and the three summed short volumes; \<open>None\<close> is a field that is
  absent (\<open>NaN\<close>).
\<close>

type_synonym 'b merged_row = "date \<times> 'b option \<times> (int \<times> int \<times> int) option"

text \<open>\<open>get_symbols\<close>: \<open>self.regsho.Symbol.unique()\<close>, in order of first appearance.\<close>

definition get_symbols :: "short_row list \<Rightarrow> string list" where
  "get_symbols regsho = unique (map Symbol regsho)"

text \<open>
  \<^verbatim>\<open>short_data.groupby('Date')[['ShortVolume', 'ShortExemptVolume', 'TotalVolume']].sum()\<close>:
  one row per day of \<open>short_data\<close>, the days ascending, each with the three sums over the
  rows of that day.
\<close>

definition group_sum :: "short_row list \<Rightarrow> date \<Rightarrow> int \<times> int \<times> int" where
  "group_sum short_data d =
     (let group = filter (\<lambda>r. Date r = d) short_data
      in (sum_list (map ShortVolume group),
          sum_list (map ShortExemptVolume group),
          sum_list (map TotalVolume group)))"

definition groupby_sum :: "short_row list \<Rightarrow> (date \<times> int \<times> int \<times> int) list" where
  "groupby_sum short_data =
     map (\<lambda>d. (d, group_sum short_data d)) (sort (remdups (map Date short_data)))"

text \<open>
  \<open>pd.concat([data, short_data], axis=1)\<close> aligns the two frames on the union of their
  indexes, an outer join: a day of either frame gets a row, with \<open>NaN\<close> in the columns of
  the frame that has no row for it. The union is the left index itself when the right
  index is empty or adds no day to an ascending left index, and the ascending list of
  the days of both otherwise. A frame whose index differs from the union is reindexed,
  which raises when that frame's index has a day twice; the right frame comes from
  \<open>groupby\<close> and has each day once.
\<close>

definition union_index :: "date list \<Rightarrow> date list \<Rightarrow> date list" where
  "union_index left right =
     (if right = [] \<or> (sorted left \<and> set right \<subseteq> set left) then left
      else sort (remdups (left @ right)))"

definition concat_columns ::
  "(date \<times> 'b) list \<Rightarrow> (date \<times> 's) list \<Rightarrow> error + (date \<times> 'b option \<times> 's option) list" where
  "concat_columns left right =
     (let axis = union_index (map fst left) (map fst right)
      in if axis = map fst left then Inr (map (\<lambda>(d, b). (d, Some b, map_of right d)) left)
         else if \<not> distinct (map fst left) then Inl InvalidIndexError
         else Inr (map (\<lambda>d. (d, map_of left d, map_of right d)) axis))"

text \<open>\<open>data[~data.index.duplicated(keep='first')]\<close>: a row is dropped when its day has
  been seen in an earlier row.\<close>

fun drop_duplicated :: "date list \<Rightarrow> (date \<times> 'r) list \<Rightarrow> (date \<times> 'r) list" where
  "drop_duplicated seen [] = []"
| "drop_duplicated seen ((d, r) # rest) =
     (if d \<in> set seen then drop_duplicated seen rest
      else (d, r) # drop_duplicated (d # seen) rest)"

text \<open>
  Lines 307 to 316 of \<open>STOCKS.update\<close>, from \<open># Concatenate with short data\<close> to
  \<open># Remove duplicate indices\<close>; \<open>data.index[0]\<close> raises on an empty frame.
\<close>

definition merge_short :: "(date \<times> 'b) list \<Rightarrow> short_row list \<Rightarrow> error + 'b merged_row list" where
  "merge_short data short_data =
     (if data = [] then Inl IndexError
      else
        (let short_data = groupby_sum short_data;
             short_data = filter (\<lambda>(d, v). fst (hd data) \<le> d) short_data;
             short_data = filter (\<lambda>(d, v). d \<le> fst (last data)) short_data
         in case concat_columns data short_data of
              Inl e \<Rightarrow> Inl e
            | Inr data \<Rightarrow> Inr (drop_duplicated [] data)))"

text \<open>The grouped rows that the two filters of \<open>merge_short\<close> keep: those of the days
  from \<open>lo\<close> to \<open>hi\<close>.\<close>

definition span_rows :: "date \<Rightarrow> date \<Rightarrow> short_row list \<Rightarrow> (date \<times> int \<times> int \<times> int) list" where
  "span_rows lo hi rs = filter (\<lambda>(d, v). d \<le> hi) (filter (\<lambda>(d, v). lo \<le> d) (groupby_sum rs))"

text \<open>
  The state of \<open>STOCKS.update\<close>: the history store of each symbol (its rows, \<open>None\<close> when
  the file does not exist), the calls made to \<open>yf.download\<close> (ticker, \<open>start\<close>, \<open>end\<close>) and
  the printed progress.
\<close>

datatype progress = Up_to_date_symbol string | Skipped string | Fetched_symbol string

record 'b stocks =
  files :: "string \<Rightarrow> 'b merged_row list option"
  downloads :: "(string \<times> date \<times> date option) list"
  printed :: "progress list"

text \<open>\<open>STOCKS.get_last_date\<close> on the rows of a history store: the day of the last row.\<close>

definition history_last_date :: "'b merged_row list \<Rightarrow> error + date" where
  "history_last_date stored = (if stored = [] then Inl IndexError else Inr (fst (last stored)))"

text \<open>
  The body of the \<open>try\<close>. \<open>yf_download ticker start end\<close> is the outcome of \<open>yf.download\<close>.
  Every exception raised here, that of \<open>data.index[0]\<close> in the \<open>print\<close> included, is caught
  by the bare \<open>except\<close> and makes the symbol skipped.
\<close>

datatype 'b attempt = Current | Failed | Got "(date \<times> 'b) list"

definition download_call ::
  "(string \<Rightarrow> date \<Rightarrow> date option \<Rightarrow> error + (date \<times> 'b) list) \<Rightarrow> string \<Rightarrow> date \<Rightarrow> date option
     \<Rightarrow> 'b attempt \<times> (string \<times> date \<times> date option) list" where
  "download_call yf_download symbol start end =
     (case yf_download symbol start end of
        Inl e \<Rightarrow> (Failed, [(symbol, start, end)])
      | Inr data \<Rightarrow> (if data = [] then Failed else Got data, [(symbol, start, end)]))"

definition try_download ::
  "date list \<Rightarrow> (string \<Rightarrow> date \<Rightarrow> date option \<Rightarrow> error + (date \<times> 'b) list) \<Rightarrow> string
     \<Rightarrow> 'b merged_row list option \<Rightarrow> date \<Rightarrow> date
     \<Rightarrow> 'b attempt \<times> (string \<times> date \<times> date option) list" where
  "try_download ust_calendar yf_download symbol file start end =
     (case file of
        Some stored \<Rightarrow>
          (case history_last_date stored of
             Inl e \<Rightarrow> (Failed, [])
           | Inr last_date \<Rightarrow>
               (case trading_dates ust_calendar (last_date + 1) end of
                  Inl e \<Rightarrow> (Failed, [])
                | Inr dates \<Rightarrow>
                    if length dates = 0 then (Current, [])
                    else download_call yf_download symbol (hd dates) None))
      | None \<Rightarrow> download_call yf_download symbol start (Some end))"

text \<open>
  One turn of the loop of \<open>STOCKS.update\<close>. The exceptions outside the \<open>try\<close>
  (\<open>iloc[0]\<close> on a symbol without rows, the merge) end the whole update: they are returned
  with the state reached, in which no store has changed.
\<close>

definition update_symbol ::
  "date list \<Rightarrow> (string \<Rightarrow> date \<Rightarrow> date option \<Rightarrow> error + (date \<times> 'b) list) \<Rightarrow> short_row list
     \<Rightarrow> string \<Rightarrow> 'b stocks \<Rightarrow> 'b stocks \<times> error option" where
  "update_symbol ust_calendar yf_download regsho symbol st =
     (let file = files st symbol;
          short_data = filter (\<lambda>r. Symbol r = symbol) regsho
      in if short_data = [] then (st, Some IndexError)
         else
           (let start = Date (hd short_data);
                end = Date (last short_data) + 1
            in case try_download ust_calendar yf_download symbol file start end of
                 (Current, calls) \<Rightarrow>
                   (st\<lparr>downloads := downloads st @ calls,
                       printed := printed st @ [Up_to_date_symbol symbol]\<rparr>, None)
               | (Failed, calls) \<Rightarrow>
                   (st\<lparr>downloads := downloads st @ calls,
                       printed := printed st @ [Skipped symbol]\<rparr>, None)
               | (Got data, calls) \<Rightarrow>
                   (let st = st\<lparr>downloads := downloads st @ calls,
                                 printed := printed st @ [Fetched_symbol symbol]\<rparr>
                    in case merge_short data short_data of
                         Inl e \<Rightarrow> (st, Some e)
                       | Inr data \<Rightarrow>
                           (st\<lparr>files := (files st)(symbol \<mapsto>
                                  (case file of None \<Rightarrow> [] | Some stored \<Rightarrow> stored) @ data)\<rparr>,
                            None))))"

fun update_symbols ::
  "date list \<Rightarrow> (string \<Rightarrow> date \<Rightarrow> date option \<Rightarrow> error + (date \<times> 'b) list) \<Rightarrow> short_row list
     \<Rightarrow> string list \<Rightarrow> 'b stocks \<Rightarrow> 'b stocks \<times> error option" where
  "update_symbols ust_calendar yf_download regsho [] st = (st, None)"
| "update_symbols ust_calendar yf_download regsho (symbol # symbols) st =
     (case update_symbol ust_calendar yf_download regsho symbol st of
        (st', Some e) \<Rightarrow> (st', Some e)
      | (st', None) \<Rightarrow> update_symbols ust_calendar yf_download regsho symbols st')"

definition stocks_update ::
  "date list \<Rightarrow> (string \<Rightarrow> date \<Rightarrow> date option \<Rightarrow> error + (date \<times> 'b) list) \<Rightarrow> short_row list
     \<Rightarrow> 'b stocks \<Rightarrow> 'b stocks \<times> error option" where
  "stocks_update ust_calendar yf_download regsho st =
     update_symbols ust_calendar yf_download regsho (get_symbols regsho) st"


text \<open>
  Any number of runs of \<open>STOCKS.update\<close>, each with the quotes provider and the short-volume
  store of its time; a run that raises leaves the stores as they are at that point.
\<close>

fun stocks_runs ::
  "date list \<Rightarrow> ((string \<Rightarrow> date \<Rightarrow> date option \<Rightarrow> error + (date \<times> 'b) list) \<times> short_row list) list
     \<Rightarrow> 'b stocks \<Rightarrow> 'b stocks" where
  "stocks_runs ust_calendar [] st = st"
| "stocks_runs ust_calendar ((yf_download, regsho) # runs) st =
     stocks_runs ust_calendar runs (fst (stocks_update ust_calendar yf_download regsho st))"

text \<open>A provider keeps to its request when the bars it returns are in chronological order
  and none is earlier than the requested start.\<close>

definition keeps_to_request ::
  "(string \<Rightarrow> date \<Rightarrow> date option \<Rightarrow> error + (date \<times> 'b) list) \<Rightarrow> bool" where
  "keeps_to_request yf_download =
     (\<forall>symbol start end data. yf_download symbol start end = Inr data \<longrightarrow>
        sorted (map fst data) \<and> (\<forall>d\<in>set (map fst data). start \<le> d))"

text \<open>The days of every history store ascend strictly.\<close>

definition ascending_stores :: "'b stocks \<Rightarrow> bool" where
  "ascending_stores st = (\<forall>symbol stored. files st symbol = Some stored \<longrightarrow> sorted_wrt (<) (map fst stored))"

subsection \<open>Sample inputs\<close>

text \<open>The days from Tuesday 1 March 2011 on as the feed and the store write them, and the
  parser of \<open>%Y%m%d\<close> on these texts.\<close>

definition sample_text :: "date \<Rightarrow> string" where
  "sample_text d =
     (if d = 734197 then ''20110301'' else if d = 734198 then ''20110302''
      else if d = 734199 then ''20110303'' else if d = 734200 then ''20110304''
      else if d = 734203 then ''20110307'' else ''20110308'')"

definition sample_strptime :: "string \<Rightarrow> date option" where
  "sample_strptime s =
     (if s = ''20110301'' then Some 734197 else if s = ''20110302'' then Some 734198
      else if s = ''20110303'' then Some 734199 else if s = ''20110304'' then Some 734200
      else if s = ''20110307'' then Some 734203 else if s = ''20110308'' then Some 734204
      else None)"

text \<open>A frame of one complete row for a day, and the same without \<open>TotalVolume\<close>.\<close>

definition sample_frame :: "date \<Rightarrow> table" where
  "sample_frame d =
     \<lparr>columns = fieldnames,
      rows = [[(''Date'', sample_text d), (''Symbol'', ''A''), (''ShortVolume'', ''100''),
               (''ShortExemptVolume'', ''0''), (''TotalVolume'', ''250''), (''Market'', ''Q'')]]\<rparr>"

definition sample_frame_short :: "date \<Rightarrow> table" where
  "sample_frame_short d =
     \<lparr>columns = [''Date'', ''Symbol'', ''ShortVolume'', ''ShortExemptVolume'', ''Market''],
      rows = [[(''Date'', sample_text d), (''Symbol'', ''A''), (''ShortVolume'', ''100''),
               (''ShortExemptVolume'', ''0''), (''Market'', ''Q'')]]\<rparr>"

text \<open>Feeds: every venue answers; the second venue cannot be reached; no venue has
  \<open>TotalVolume\<close>; every venue answers on 1 and 2 March and has neither rows nor the
  required fields on any other day.\<close>

definition feed_open :: "string \<Rightarrow> date \<Rightarrow> error + table" where
  "feed_open base_url d = Inr (sample_frame d)"

definition feed_venue_down :: "string \<Rightarrow> date \<Rightarrow> error + table" where
  "feed_venue_down base_url d =
     (if base_url = ''http://regsho.finra.org/FNQCshvol{}.txt'' then Inl RequestError
      else Inr (sample_frame d))"

definition feed_closed :: "string \<Rightarrow> date \<Rightarrow> error + table" where
  "feed_closed base_url d = Inr (sample_frame_short d)"



text \<open>A row of the short-volume store for symbol \<open>X\<close>, and a store with two markets on
  1 March 2011 and one on each of the next two days.\<close>

definition short_sample :: "date \<Rightarrow> string \<Rightarrow> int \<Rightarrow> short_row" where
  "short_sample d market volume =
     \<lparr>Date = d, Symbol = ''X'', ShortVolume = volume, ShortExemptVolume = 0,
      TotalVolume = 2 * volume, Market = market\<rparr>"

definition regsho_sample :: "short_row list" where
  "regsho_sample =
     [short_sample 734197 ''A'' 100, short_sample 734197 ''B'' 50,
      short_sample 734198 ''A'' 7, short_sample 734199 ''A'' 9]"

text \<open>A provider that answers with a bar on the day before the requested start and one on
  the start; the state in which the store of \<open>X\<close> holds 1 March 2011.\<close>

definition provider_overlap :: "string \<Rightarrow> date \<Rightarrow> date option \<Rightarrow> error + (date \<times> nat) list" where
  "provider_overlap symbol start end = Inr [(start - 1, 10), (start, 11)]"

definition stocks_sample :: "nat stocks" where
  "stocks_sample =
     \<lparr>files = (\<lambda>symbol. None)(''X'' \<mapsto> [(734197, Some 10, Some (150, 0, 300))]),
      downloads = [], printed = []\<rparr>"


text \<open>A provider that answers with one bar, on the requested start.\<close>

definition provider_daily :: "string \<Rightarrow> date \<Rightarrow> date option \<Rightarrow> error + (date \<times> nat) list" where
  "provider_daily symbol start end = Inr [(start, 11)]"



section \<open>Properties\<close>

subsection \<open>Sanitizing\<close>

























subsection \<open>The last line of a store\<close>

lemma linebreak_LF: "is_linebreak (CHR 0x0A)"
  by (simp add: is_linebreak_def)

lemma splitlines_from_text:
  "\<forall>c\<in>set l. \<not> is_linebreak c \<Longrightarrow>
     splitlines_from False cur (l @ t) = splitlines_from False (rev l @ cur) t"
proof (induction l arbitrary: cur)
  case Nil
  then show ?case by simp
next
  case (Cons c l)
  then have c: "\<not> is_linebreak c" and l: "\<forall>c\<in>set l. \<not> is_linebreak c" by simp_all
  from c have "c \<noteq> CHR 0x0A" using linebreak_LF by auto
  then show ?case using c Cons.IH [OF l, of "c # cur"] by simp
qed

lemma splitlines_from_text_any:
  assumes "\<forall>c\<in>set l. \<not> is_linebreak c" "l \<noteq> []"
  shows "splitlines_from f cur (l @ t) = splitlines_from False (rev l @ cur) t"
proof -
  from assms(2) obtain c l' where l: "l = c # l'" by (cases l) auto
  with assms(1) have c: "\<not> is_linebreak c" and l': "\<forall>c\<in>set l'. \<not> is_linebreak c" by simp_all
  from c have "c \<noteq> CHR 0x0A" using linebreak_LF by auto
  then have "splitlines_from f cur (l @ t) = splitlines_from False (c # cur) (l' @ t)"
    using c l by simp
  also have "\<dots> = splitlines_from False (rev l' @ c # cur) t"
    by (rule splitlines_from_text [OF l'])
  finally show ?thesis using l by simp
qed

lemma splitlines_from_end:
  assumes "t = [] \<or> is_terminator t" "cur \<noteq> []"
  shows "splitlines_from False cur t = [rev cur]"
proof -
  from assms(1) consider "t = []" | "t = [CHR 0x0D, CHR 0x0A]" | c where "t = [c]" "is_linebreak c"
    by (auto simp: is_terminator_def length_Suc_conv)
  then show ?thesis
  proof cases
    case 1
    then show ?thesis using assms(2) by simp
  next
    case 2
    then show ?thesis by (simp add: is_linebreak_def)
  next
    case 3
    then show ?thesis by simp
  qed
qed

lemma splitlines_from_last_line:
  assumes "\<forall>c\<in>set l. \<not> is_linebreak c" "l \<noteq> []" "t = [] \<or> is_terminator t"
  shows "splitlines_from f cur (l @ t) = [rev cur @ l]"
  using splitlines_from_text_any [OF assms(1,2), of f cur t]
    splitlines_from_end [OF assms(3), of "rev l @ cur"] assms(2)
  by simp

lemma splitlines_from_tail:
  assumes l: "\<forall>c\<in>set l. \<not> is_linebreak c" "l \<noteq> []" and t: "t = [] \<or> is_terminator t"
  shows "pre \<noteq> [] \<Longrightarrow> is_linebreak (last pre) \<Longrightarrow> after_cr \<longrightarrow> cur = [] \<Longrightarrow>
     splitlines_from after_cr cur (pre @ l @ t) \<noteq> [] \<and> last (splitlines_from after_cr cur (pre @ l @ t)) = l"
proof (induction pre arbitrary: after_cr cur)
  case Nil
  then show ?case by simp
next
  case (Cons c pre)
  show ?case
  proof (cases "pre = []")
    case True
    with Cons.prems have c: "is_linebreak c" by simp
    show ?thesis
    proof (cases "c = CHR 0x0A \<and> after_cr")
      case lf: True
      with Cons.prems(3) have "cur = []" by simp
      then show ?thesis using lf True splitlines_from_last_line [OF l t, of False "[]"] by simp
    next
      case lf: False
      then have "splitlines_from after_cr cur ((c # pre) @ l @ t)
          = rev cur # splitlines_from (c = CHR 0x0D) [] (l @ t)"
        using c True by auto
      then show ?thesis using splitlines_from_last_line [OF l t, of "c = CHR 0x0D" "[]"] by simp
    qed
  next
    case False
    with Cons.prems have lp: "is_linebreak (last pre)" by simp
    note IH = Cons.IH [OF False lp]
    show ?thesis
    proof (cases "c = CHR 0x0A \<and> after_cr")
      case lf: True
      then have "splitlines_from after_cr cur ((c # pre) @ l @ t) = splitlines_from False cur (pre @ l @ t)"
        by simp
      then show ?thesis using IH [of False cur] by simp
    next
      case lf: False
      show ?thesis
      proof (cases "is_linebreak c")
        case True
        with lf have "splitlines_from after_cr cur ((c # pre) @ l @ t)
            = rev cur # splitlines_from (c = CHR 0x0D) [] (pre @ l @ t)"
          by auto
        then show ?thesis using IH [of "c = CHR 0x0D" "[]"] by simp
      next
        case False
        with lf have "splitlines_from after_cr cur ((c # pre) @ l @ t)
            = splitlines_from False (c # cur) (pre @ l @ t)"
          by auto
        then show ?thesis using IH [of False "c # cur"] by simp
      qed
    qed
  qed
qed

lemma splitlines_last_line:
  assumes "\<forall>c\<in>set l. \<not> is_linebreak c" "l \<noteq> []" "t = [] \<or> is_terminator t"
    "pre = [] \<or> is_linebreak (last pre)"
  shows "splitlines (pre @ l @ t) \<noteq> [] \<and> last (splitlines (pre @ l @ t)) = l"
proof (cases "pre = []")
  case True
  then show ?thesis
    using splitlines_from_last_line [OF assms(1-3), of False "[]"] by (simp add: splitlines_def)
next
  case False
  with assms(4) have "is_linebreak (last pre)" by simp
  from splitlines_from_tail [OF assms(1-3) False this, of False "[]"]
  show ?thesis by (simp add: splitlines_def)
qed

lemma splitlines_empty: "(splitlines s = []) = (s = [])"
proof -
  have ne: "cur \<noteq> [] \<Longrightarrow> splitlines_from False cur s \<noteq> []" for cur s
    by (induction s arbitrary: cur) simp_all
  show ?thesis
  proof (cases s)
    case Nil
    then show ?thesis by (simp add: splitlines_def)
  next
    case (Cons c cs)
    then show ?thesis using ne [of "[c]" cs] by (simp add: splitlines_def)
  qed
qed


lemma get_last_date_tail:
  assumes "length (l @ t) \<le> 4096" "pre = [] \<or> is_linebreak (last pre)"
  shows "\<exists>pre'. drop (nat (max (int (length (pre @ l @ t)) - 4096) 0)) (pre @ l @ t) = pre' @ l @ t
           \<and> (pre' = [] \<or> is_linebreak (last pre'))"
proof -
  let ?k = "nat (max (int (length (pre @ l @ t)) - 4096) 0)"
  have k: "?k \<le> length pre" using assms(1) by simp
  then have "drop ?k (pre @ l @ t) = drop ?k pre @ l @ t" by simp
  moreover have "drop ?k pre = [] \<or> is_linebreak (last (drop ?k pre))"
  proof (cases "drop ?k pre = []")
    case True
    then show ?thesis by simp
  next
    case False
    then have "pre \<noteq> []" and "?k < length pre" by auto
    then have "last (drop ?k pre) = last pre" by (simp add: last_drop)
    then show ?thesis using assms(2) \<open>pre \<noteq> []\<close> by simp
  qed
  ultimately show ?thesis by blast
qed

lemma get_last_date_line:
  assumes c: "content = pre @ l @ t" and p: "pre = [] \<or> is_linebreak (last pre)"
    and l: "\<forall>c\<in>set l. \<not> is_linebreak c" "l \<noteq> []" and t: "t = [] \<or> is_terminator t"
    and len: "length (l @ t) \<le> 4096"
  shows "get_last_date strptime delimiter content
       = (case strptime (takeWhile (\<lambda>c. c \<noteq> delimiter) l) of
            None \<Rightarrow> Inl ValueError | Some d \<Rightarrow> Inr d)"
proof -
  from get_last_date_tail [OF len p] obtain pre' where
    tail: "drop (nat (max (int (length content) - 4096) 0)) content = pre' @ l @ t"
    and p': "pre' = [] \<or> is_linebreak (last pre')"
    unfolding c by blast
  from splitlines_last_line [OF l t p']
  have "splitlines (pre' @ l @ t) \<noteq> []" "last (splitlines (pre' @ l @ t)) = l" by simp_all
  then show ?thesis by (simp add: get_last_date_def tail)
qed

text \<open>
  Claim C10. Let the text of an existing store end with the line \<open>l\<close> (not empty, with no
  line boundary inside, closed by a terminator \<open>t\<close> or by the end of the file, and
  starting the file or following a line boundary), let \<open>l\<close> with its terminator lie within
  the last 4096 bytes, and let the field of \<open>l\<close> before the first delimiter parse as the
  date \<open>d\<close>. Then \<open>get_last_date\<close> returns \<open>d\<close>, whatever the lines before \<open>l\<close> are. On a
  file with no line it raises \<open>IndexError\<close>.
\<close>

theorem get_last_date_reads_last_line:
  "(content = pre @ l @ t \<and> (pre = [] \<or> is_linebreak (last pre))
      \<and> l \<noteq> [] \<and> (\<forall>c\<in>set l. \<not> is_linebreak c) \<and> (t = [] \<or> is_terminator t)
      \<and> length (l @ t) \<le> 4096
      \<and> strptime (takeWhile (\<lambda>c. c \<noteq> delimiter) l) = Some d
     \<longrightarrow> get_last_date strptime delimiter content = Inr d)
   \<and> (splitlines content = [] \<longrightarrow> get_last_date strptime delimiter content = Inl IndexError)"
proof (intro conjI impI)
  assume a: "content = pre @ l @ t \<and> (pre = [] \<or> is_linebreak (last pre))
      \<and> l \<noteq> [] \<and> (\<forall>c\<in>set l. \<not> is_linebreak c) \<and> (t = [] \<or> is_terminator t)
      \<and> length (l @ t) \<le> 4096
      \<and> strptime (takeWhile (\<lambda>c. c \<noteq> delimiter) l) = Some d"
  then have c: "content = pre @ l @ t" and p: "pre = [] \<or> is_linebreak (last pre)"
    and l: "\<forall>c\<in>set l. \<not> is_linebreak c" "l \<noteq> []" and t: "t = [] \<or> is_terminator t"
    and len: "length (l @ t) \<le> 4096"
    and d: "strptime (takeWhile (\<lambda>c. c \<noteq> delimiter) l) = Some d"
    by blast+
  from get_last_date_line [OF c p l t len, of strptime delimiter] d
  show "get_last_date strptime delimiter content = Inr d" by simp
next
  assume "splitlines content = []"
  then have "content = []" by (simp add: splitlines_empty)
  then show "get_last_date strptime delimiter content = Inl IndexError"
    by (simp add: get_last_date_def splitlines_def)
qed

text \<open>A store of a header and two rows, and the empty store.\<close>

theorem get_last_date_reads_last_line_witness:
  "get_last_date (\<lambda>s. if s = ''20110302'' then Some 734198 else None) (CHR ''|'')
      (''Date|Symbol'' @ [CHR 0x0A] @ ''20110301|A|5'' @ [CHR 0x0A] @ ''20110302|B|7'' @ [CHR 0x0A])
     = Inr 734198
   \<and> splitlines [] = []
   \<and> get_last_date (\<lambda>s. if s = ''20110302'' then Some 734198 else None) (CHR ''|'') [] = Inl IndexError"
proof -
  let ?sp = "\<lambda>s. if s = ''20110302'' then Some (734198::int) else None"
  let ?pre = "''Date|Symbol'' @ [CHR 0x0A] @ ''20110301|A|5'' @ [CHR 0x0A]"
  have h: "?pre @ ''20110302|B|7'' @ [CHR 0x0A] = ?pre @ ''20110302|B|7'' @ [CHR 0x0A]
      \<and> (?pre = [] \<or> is_linebreak (last ?pre))
      \<and> ''20110302|B|7'' \<noteq> [] \<and> (\<forall>c\<in>set ''20110302|B|7''. \<not> is_linebreak c)
      \<and> ([CHR 0x0A] = [] \<or> is_terminator [CHR 0x0A])
      \<and> length (''20110302|B|7'' @ [CHR 0x0A]) \<le> 4096
      \<and> ?sp (takeWhile (\<lambda>c. c \<noteq> CHR ''|'') ''20110302|B|7'') = Some 734198"
    by (simp add: is_linebreak_def is_terminator_def)
  have e: "splitlines [] = []" by (simp add: splitlines_def)
  from get_last_date_reads_last_line [of "?pre @ ''20110302|B|7'' @ [CHR 0x0A]" ?pre
      "''20110302|B|7''" "[CHR 0x0A]" ?sp "CHR ''|''" 734198] h
  have 1: "get_last_date ?sp (CHR ''|'') (?pre @ ''20110302|B|7'' @ [CHR 0x0A]) = Inr 734198"
    by blast
  from get_last_date_reads_last_line [of "[]" "[]" "[]" "[]" ?sp "CHR ''|''" 0] e
  have 2: "get_last_date ?sp (CHR ''|'') [] = Inl IndexError" by blast
  show ?thesis using 1 2 e by simp
qed

text \<open>
  The two readings of a store agree: on the text of the lines, \<open>get_last_date\<close> returns
  what \<open>store_last_date\<close> returns on the lines, when the last line is not empty, shorter
  than 4096 bytes and free of line boundaries, and its first field is free of the
  delimiter.
\<close>

lemma file_text_snoc:
  "file_text delimiter (lines @ [fs]) = file_text delimiter lines @ str_join [delimiter] fs @ [CHR 0x0A]"
  by (simp add: file_text_def)

lemma file_text_ends:
  "file_text delimiter lines = [] \<or> is_linebreak (last (file_text delimiter lines))"
  by (induction lines rule: rev_induct) (simp_all add: file_text_snoc linebreak_LF, simp add: file_text_def)

lemma takeWhile_first_field:
  "delimiter \<notin> set f \<Longrightarrow> takeWhile (\<lambda>c. c \<noteq> delimiter) (str_join [delimiter] (f # fs)) = f"
proof (cases fs)
  case Nil
  assume "delimiter \<notin> set f"
  then have "takeWhile (\<lambda>c. c \<noteq> delimiter) f = f" by (auto simp: takeWhile_eq_all_conv)
  then show ?thesis using Nil by simp
next
  case (Cons v vs)
  assume "delimiter \<notin> set f"
  then have "\<forall>x\<in>set f. x \<noteq> delimiter" by auto
  then show ?thesis using Cons by (simp add: takeWhile_append2)
qed

lemma get_last_date_file_text:
  assumes ne: "lines \<noteq> []" and ll: "last lines = f # fs" and f: "delimiter \<notin> set f"
    and nb: "\<forall>c\<in>set (str_join [delimiter] (last lines)). \<not> is_linebreak c"
    and nn: "str_join [delimiter] (last lines) \<noteq> []"
    and len: "length (str_join [delimiter] (last lines)) < 4096"
  shows "get_last_date strptime delimiter (file_text delimiter lines) = store_last_date strptime lines"
proof -
  let ?l = "str_join [delimiter] (last lines)"
  let ?pre = "file_text delimiter (butlast lines)"
  from ne have "lines = butlast lines @ [last lines]" by simp
  then have c: "file_text delimiter lines = ?pre @ ?l @ [CHR 0x0A]"
    using file_text_snoc [of delimiter "butlast lines" "last lines"] by simp
  have t: "[CHR 0x0A] = [] \<or> is_terminator [CHR 0x0A]"
    by (simp add: is_terminator_def linebreak_LF)
  from len have len': "length (?l @ [CHR 0x0A]) \<le> 4096" by simp
  from get_last_date_line [OF c file_text_ends nb nn t len', of strptime delimiter]
  have "get_last_date strptime delimiter (file_text delimiter lines)
      = (case strptime (takeWhile (\<lambda>c. c \<noteq> delimiter) ?l) of
           None \<Rightarrow> Inl ValueError | Some d \<Rightarrow> Inr d)" .
  moreover have "takeWhile (\<lambda>c. c \<noteq> delimiter) ?l = f"
    unfolding ll by (rule takeWhile_first_field [OF f])
  ultimately show ?thesis using ne ll by (simp add: store_last_date_def)
qed

subsection \<open>The trading calendar\<close>

lemma holidays_in_bdate_range:
  assumes "\<forall>h\<in>set cal. weekday h < 5"
  shows "set (holidays cal s e) \<subseteq> set (bdate_range s e)"
  using assms by (auto simp: holidays_def bdate_range_def)

lemma trading_dates_eq:
  assumes "\<forall>h\<in>set cal. weekday h < 5"
  shows "trading_dates cal s e = Inr (filter (trading_day cal) [s..e])"
proof -
  have "filter (\<lambda>d. d \<notin> set (holidays cal s e)) (bdate_range s e) = filter (trading_day cal) [s..e]"
    by (auto simp: holidays_def bdate_range_def trading_day_def intro: filter_cong)
  then show ?thesis
    using holidays_in_bdate_range [OF assms, of s e]
    by (simp add: trading_dates_def index_drop_def)
qed

lemma strict_sorted_filter_upto: "sorted_wrt (<) (filter P [s..e])"
proof -
  have "sorted_wrt (<) [s..e]" by (simp add: strict_sorted_iff)
  then show ?thesis by (rule sorted_wrt_filter)
qed

text \<open>
  Claim C8. With a holiday calendar whose observed holidays fall on Mondays to Fridays (as
  those of the US trading calendar do), \<open>trading_dates\<close> returns for every pair of dates
  the strictly ascending list of the trading days of the closed range: an endpoint is in
  it exactly when it is a trading day, no Saturday, Sunday or holiday is, and the list is
  empty, not an error, when the range runs backwards or holds no trading day. It is a
  function of the calendar and the two dates alone.
\<close>

theorem trading_dates_contract:
  assumes "\<forall>h\<in>set ust_calendar. weekday h < 5"
  shows "\<exists>dates. trading_dates ust_calendar start_date end_date = Inr dates
    \<and> sorted_wrt (<) dates
    \<and> set dates = {d. start_date \<le> d \<and> d \<le> end_date \<and> trading_day ust_calendar d}
    \<and> (start_date \<in> set dates \<longleftrightarrow> start_date \<le> end_date \<and> trading_day ust_calendar start_date)
    \<and> (end_date \<in> set dates \<longleftrightarrow> start_date \<le> end_date \<and> trading_day ust_calendar end_date)
    \<and> (\<forall>d\<in>set dates. weekday d \<noteq> 5 \<and> weekday d \<noteq> 6 \<and> d \<notin> set ust_calendar)
    \<and> (end_date < start_date \<longrightarrow> dates = [])
    \<and> ((\<forall>d. start_date \<le> d \<and> d \<le> end_date \<longrightarrow> \<not> trading_day ust_calendar d) \<longrightarrow> dates = [])"
proof (intro exI conjI)
  let ?ds = "filter (trading_day ust_calendar) [start_date..end_date]"
  show "trading_dates ust_calendar start_date end_date = Inr ?ds"
    by (rule trading_dates_eq [OF assms])
  show "sorted_wrt (<) ?ds" by (rule strict_sorted_filter_upto)
  show "set ?ds = {d. start_date \<le> d \<and> d \<le> end_date \<and> trading_day ust_calendar d}"
    by auto
  show "start_date \<in> set ?ds \<longleftrightarrow> start_date \<le> end_date \<and> trading_day ust_calendar start_date"
    by auto
  show "end_date \<in> set ?ds \<longleftrightarrow> start_date \<le> end_date \<and> trading_day ust_calendar end_date"
    by auto
  show "\<forall>d\<in>set ?ds. weekday d \<noteq> 5 \<and> weekday d \<noteq> 6 \<and> d \<notin> set ust_calendar"
    by (auto simp: trading_day_def)
  show "end_date < start_date \<longrightarrow> ?ds = []" by simp
  show "(\<forall>d. start_date \<le> d \<and> d \<le> end_date \<longrightarrow> \<not> trading_day ust_calendar d) \<longrightarrow> ?ds = []"
    by (auto simp: filter_empty_conv)
qed

text \<open>Tuesday 1 March 2011 to Friday 11 March 2011, with Friday 4 March as a holiday; a
  range that runs backwards; a range of a holiday and a weekend.\<close>

theorem trading_dates_contract_witness:
  "trading_dates [734200] 734197 734207
        = Inr [734197, 734198, 734199, 734203, 734204, 734205, 734206, 734207]
   \<and> trading_dates [734200] 734207 734197 = Inr []
   \<and> trading_dates [734200] 734200 734202 = Inr []"
proof -
  have h: "\<forall>h\<in>set [734200]. weekday h < 5" by (simp add: weekday_def)
  have a: "trading_dates [734200] 734197 734207
        = Inr [734197, 734198, 734199, 734203, 734204, 734205, 734206, 734207]"
    by (simp add: trading_dates_def index_drop_def bdate_range_def holidays_def weekday_def upto_rec1)
  have c: "\<forall>d. 734200 \<le> d \<and> d \<le> 734202 \<longrightarrow> \<not> trading_day [734200] d"
  proof (intro allI impI)
    fix d :: int assume "734200 \<le> d \<and> d \<le> 734202"
    then have "d = 734200 \<or> d = 734201 \<or> d = 734202" by arith
    then show "\<not> trading_day [734200] d" by (auto simp: trading_day_def weekday_def)
  qed
  from trading_dates_contract [OF h, of 734207 734197]
  have b: "trading_dates [734200] 734207 734197 = Inr []" by auto
  from trading_dates_contract [OF h, of 734200 734202] c
  have d: "trading_dates [734200] 734200 734202 = Inr []" by auto
  show ?thesis using a b d by blast
qed

subsection \<open>The short-volume synchronizer\<close>

lemma request_all_raises:
  "\<exists>u\<in>set urls. \<exists>e. feed u date = Inl e \<Longrightarrow>
     \<exists>e. request_all feed date urls = Inl e \<and> (\<exists>u\<in>set urls. feed u date = Inl e)"
proof (induction urls)
  case Nil
  then show ?case by simp
next
  case (Cons u urls)
  show ?case
  proof (cases "feed u date")
    case (Inl e)
    then show ?thesis by auto
  next
    case (Inr t)
    with Cons.prems have "\<exists>u\<in>set urls. \<exists>e. feed u date = Inl e" by auto
    from Cons.IH [OF this] obtain e where "request_all feed date urls = Inl e"
      and "\<exists>u\<in>set urls. feed u date = Inl e" by blast
    then show ?thesis using Inr by auto
  qed
qed

lemma request_all_frames:
  "\<forall>u\<in>set urls. \<exists>t. feed u date = Inr t \<Longrightarrow>
     request_all feed date urls = Inr (map (\<lambda>u. dropna (projr (feed u date))) urls)"
proof (induction urls)
  case Nil
  then show ?case by simp
next
  case (Cons u urls)
  then obtain t where t: "feed u date = Inr t" by auto
  from Cons have "request_all feed date urls = Inr (map (\<lambda>u. dropna (projr (feed u date))) urls)"
    by simp
  then show ?case using t by simp
qed

lemma set_unique: "set (unique xs) = set xs"
  by (simp add: unique_def)

lemma columns_dropna: "columns (dropna t) = columns t"
  by (simp add: dropna_def)

lemma columns_pd_concat: "set (columns (pd_concat frames)) = (\<Union>t\<in>set frames. set (columns t))"
  by (simp add: pd_concat_def set_unique)

lemma download_data_closed:
  assumes "request_all feed date base_urls = Inr frames"
    and "col \<in> set fieldnames" "col \<notin> set (columns (pd_concat frames))"
  shows "download_data feed date store = (store, Inr None)"
proof -
  have "list_ex (\<lambda>col. col \<notin> set (columns (pd_concat frames))) fieldnames"
    using assms(2,3) by (auto simp: list_ex_iff)
  then show ?thesis using assms(1) by (simp add: download_data_def)
qed

text \<open>
  Claim C3. When the three requests of a date all return a frame and one of the six
  required fields is a column of none of them, \<open>download_data\<close> takes the \<open>return None\<close>
  before \<open>save_data\<close>: the store is what it was, so the date is not in it, and the loop
  of \<open>update\<close> prints the date as closed and goes on with the next date.
\<close>

theorem closed_day_writes_nothing:
  assumes "\<forall>u\<in>set base_urls. \<exists>t. feed u date = Inr t"
    and "col \<in> set fieldnames"
    and "\<forall>u\<in>set base_urls. \<forall>t. feed u date = Inr t \<longrightarrow> col \<notin> set (columns t)"
  shows "download_data feed date store = (store, Inr None)
    \<and> update_loop feed (date # dates) store out = update_loop feed dates store (out @ [Closed date])"
proof -
  let ?frames = "map (\<lambda>u. dropna (projr (feed u date))) base_urls"
  have r: "request_all feed date base_urls = Inr ?frames"
    using request_all_frames [of base_urls feed date] assms(1) by simp
  have "col \<notin> set (columns (pd_concat ?frames))"
  proof
    assume "col \<in> set (columns (pd_concat ?frames))"
    then obtain u where u: "u \<in> set base_urls" and c: "col \<in> set (columns (projr (feed u date)))"
      by (auto simp: columns_pd_concat columns_dropna)
    from assms(1) u obtain t where t: "feed u date = Inr t" by blast
    with assms(3) u have "col \<notin> set (columns t)" by blast
    with c t show False by simp
  qed
  from download_data_closed [OF r assms(2) this]
  have d: "download_data feed date store = (store, Inr None)" .
  then show ?thesis by simp
qed


lemma sample_rows:
  "to_csv (select_columns fieldnames (pd_concat [dropna (sample_frame d), dropna (sample_frame d), dropna (sample_frame d)])) h
   = (if h then [fieldnames] else []) @ replicate 3 [sample_text d, ''A'', ''100'', ''0'', ''250'', ''Q'']"
  by (simp add: to_csv_def select_columns_def pd_concat_def dropna_def sample_frame_def fieldnames_def
      unique_def restrict_row_def numeral_3_eq_3)

text \<open>
  No venue has \<open>TotalVolume\<close> on 2 March 2011: the store keeps its one line.
\<close>

theorem closed_day_writes_nothing_witness:
  "download_data feed_closed 734198 (Some [[''20110301'', ''A'', ''100'', ''0'', ''250'', ''Q'']])
     = (Some [[''20110301'', ''A'', ''100'', ''0'', ''250'', ''Q'']], Inr None)
   \<and> update_loop feed_closed [734198] (Some [[''20110301'', ''A'', ''100'', ''0'', ''250'', ''Q'']]) []
     = (Some [[''20110301'', ''A'', ''100'', ''0'', ''250'', ''Q'']], [Closed 734198, Up_to_date], None)"
proof -
  have 1: "\<forall>u\<in>set base_urls. \<exists>t. feed_closed u 734198 = Inr t"
    by (simp add: feed_closed_def)
  have 2: "''TotalVolume'' \<in> set fieldnames" by (simp add: fieldnames_def)
  have 3: "\<forall>u\<in>set base_urls. \<forall>t. feed_closed u 734198 = Inr t \<longrightarrow> ''TotalVolume'' \<notin> set (columns t)"
    by (auto simp: feed_closed_def sample_frame_short_def)
  from closed_day_writes_nothing [of feed_closed 734198 "''TotalVolume''"
      "Some [[''20110301'', ''A'', ''100'', ''0'', ''250'', ''Q'']]" "[]" "[]"] 1 2 3
  show ?thesis by simp
qed

lemma download_data_raises:
  assumes "\<exists>u\<in>set base_urls. \<exists>e. feed u date = Inl e"
  shows "\<exists>e. (\<exists>u\<in>set base_urls. feed u date = Inl e) \<and> download_data feed date store = (store, Inl e)"
proof -
  from request_all_raises [of base_urls feed date] assms obtain e where "request_all feed date base_urls = Inl e"
    and "\<exists>u\<in>set base_urls. feed u date = Inl e" by blast
  then show ?thesis by (auto simp: download_data_def)
qed

lemma download_data_no_raise:
  assumes "\<forall>u\<in>set base_urls. \<exists>t. feed u date = Inr t"
  shows "download_data feed date store =
     (let data = pd_concat (map (\<lambda>u. dropna (projr (feed u date))) base_urls)
      in if \<exists>col\<in>set fieldnames. col \<notin> set (columns data) then (store, Inr None)
         else (save_data store (select_columns fieldnames data) (date = earliest),
               Inr (Some (select_columns fieldnames data))))"
  using request_all_frames [of base_urls feed date] assms
  by (simp add: download_data_def Let_def list_ex_iff)

text \<open>
  Claim C2 as amended. An exception of the request or the parse of a venue is not caught:
  \<open>download_data\<close> raises it with the store unchanged, and it ends the loop of \<open>update\<close>
  with the store and the output as they were. When no venue raises, the frames of all
  venues are concatenated, none is dropped, and the date is closed exactly when a required
  field is missing from the concatenation; otherwise its rows are appended.
\<close>

theorem partition_error_propagates:
  "((\<exists>u\<in>set base_urls. \<exists>e. feed u date = Inl e) \<longrightarrow>
      (\<exists>e. (\<exists>u\<in>set base_urls. feed u date = Inl e)
         \<and> download_data feed date store = (store, Inl e)
         \<and> update_loop feed (date # dates) store out = (store, out, Some e)))
   \<and> ((\<forall>u\<in>set base_urls. \<exists>t. feed u date = Inr t) \<longrightarrow>
      (\<exists>data. data = pd_concat (map (\<lambda>u. dropna (projr (feed u date))) base_urls)
         \<and> rows data = concat (map (\<lambda>u. map (restrict_row (columns (projr (feed u date))))
                                          (rows (dropna (projr (feed u date))))) base_urls)
         \<and> (if \<exists>col\<in>set fieldnames. col \<notin> set (columns data)
             then download_data feed date store = (store, Inr None)
             else download_data feed date store
                    = (save_data store (select_columns fieldnames data) (date = earliest),
                       Inr (Some (select_columns fieldnames data))))))"
proof (intro conjI impI)
  assume "\<exists>u\<in>set base_urls. \<exists>e. feed u date = Inl e"
  with download_data_raises [of feed date store] obtain e where
    e: "\<exists>u\<in>set base_urls. feed u date = Inl e" and d: "download_data feed date store = (store, Inl e)"
    by blast
  from d have "update_loop feed (date # dates) store out = (store, out, Some e)" by simp
  with e d show "\<exists>e. (\<exists>u\<in>set base_urls. feed u date = Inl e)
         \<and> download_data feed date store = (store, Inl e)
         \<and> update_loop feed (date # dates) store out = (store, out, Some e)" by blast
next
  assume a: "\<forall>u\<in>set base_urls. \<exists>t. feed u date = Inr t"
  let ?data = "pd_concat (map (\<lambda>u. dropna (projr (feed u date))) base_urls)"
  have r: "rows ?data = concat (map (\<lambda>u. map (restrict_row (columns (projr (feed u date))))
                                          (rows (dropna (projr (feed u date))))) base_urls)"
    by (simp add: pd_concat_def columns_dropna comp_def)
  show "\<exists>data. data = pd_concat (map (\<lambda>u. dropna (projr (feed u date))) base_urls)
         \<and> rows data = concat (map (\<lambda>u. map (restrict_row (columns (projr (feed u date))))
                                          (rows (dropna (projr (feed u date))))) base_urls)
         \<and> (if \<exists>col\<in>set fieldnames. col \<notin> set (columns data)
             then download_data feed date store = (store, Inr None)
             else download_data feed date store
                    = (save_data store (select_columns fieldnames data) (date = earliest),
                       Inr (Some (select_columns fieldnames data))))"
    using r download_data_no_raise [of feed date store] a by (simp add: Let_def)
qed


lemma sample_frame_no_na: "dropna (sample_frame d) = sample_frame d"
  by (simp add: dropna_def sample_frame_def fieldnames_def)

lemma download_open:
  "download_data feed_open d store =
     (Some ((case store of None \<Rightarrow> [] | Some ls \<Rightarrow> ls) @ (if d = earliest then [fieldnames] else [])
         @ replicate 3 [sample_text d, ''A'', ''100'', ''0'', ''250'', ''Q'']),
      Inr (Some (select_columns fieldnames (pd_concat [sample_frame d, sample_frame d, sample_frame d]))))"
proof -
  have c: "columns (pd_concat [sample_frame d, sample_frame d, sample_frame d]) = fieldnames"
    by (simp add: pd_concat_def sample_frame_def fieldnames_def unique_def)
  have r: "request_all feed_open d base_urls = Inr [sample_frame d, sample_frame d, sample_frame d]"
    by (simp add: base_urls_def feed_open_def sample_frame_no_na)
  show ?thesis
    using sample_rows [of d "d = earliest"]
    by (simp add: download_data_def r c list_ex_iff save_data_def sample_frame_no_na)
qed

text \<open>
  Claim C2 fails on the code. On 1 March 2011 the first and the third venue answer with a
  complete frame and the request of the second raises: \<open>download_data\<close> raises that
  exception, merges nothing, and the loop of \<open>update\<close> ends with it before the next date.
\<close>

theorem partition_error_counterexample:
  "feed_venue_down ''http://regsho.finra.org/FNYXshvol{}.txt'' 734197 = Inr (sample_frame 734197)
   \<and> feed_venue_down ''http://regsho.finra.org/FNQCshvol{}.txt'' 734197 = Inl RequestError
   \<and> feed_venue_down ''http://regsho.finra.org/FNSQshvol{}.txt'' 734197 = Inr (sample_frame 734197)
   \<and> download_data feed_venue_down 734197 None = (None, Inl RequestError)
   \<and> update_loop feed_venue_down [734197, 734198] None [] = (None, [], Some RequestError)"
proof -
  have d: "download_data feed_venue_down 734197 None = (None, Inl RequestError)"
    by (simp add: download_data_def base_urls_def feed_venue_down_def)
  then show ?thesis by (simp add: feed_venue_down_def)
qed

text \<open>
  The second venue down on 2 March 2011, and all venues up on that day.
\<close>

theorem partition_error_propagates_witness:
  "download_data feed_venue_down 734198 None = (None, Inl RequestError)
   \<and> update_loop feed_venue_down [734198, 734199] None [Fetched 734197]
        = (None, [Fetched 734197], Some RequestError)
   \<and> fst (download_data feed_open 734198 None)
        = Some (replicate 3 [''20110302'', ''A'', ''100'', ''0'', ''250'', ''Q''])"
proof -
  have 1: "\<exists>u\<in>set base_urls. \<exists>e. feed_venue_down u 734198 = Inl e"
    by (simp add: base_urls_def feed_venue_down_def)
  have 2: "\<And>e. (\<exists>u\<in>set base_urls. feed_venue_down u 734198 = Inl e) \<Longrightarrow> e = RequestError"
    by (auto simp: feed_venue_down_def split: if_splits)
  from partition_error_propagates [of feed_venue_down 734198 None "[734199]" "[Fetched 734197]"] 1
  obtain e where e: "\<exists>u\<in>set base_urls. feed_venue_down u 734198 = Inl e"
    and d: "download_data feed_venue_down 734198 None = (None, Inl e)"
    and u: "update_loop feed_venue_down [734198, 734199] None [Fetched 734197]
        = (None, [Fetched 734197], Some e)"
    by blast
  from 2 [OF e] have "e = RequestError" .
  then show ?thesis using d u download_open [of 734198 None]
    by (simp add: sample_text_def earliest_def ymd2ord_def days_before_year_def days_before_month_def
        is_leap_def)
qed

lemma earliest_value: "earliest = 734197"
  by (simp add: earliest_def ymd2ord_def days_before_year_def days_before_month_def is_leap_def)

text \<open>
  Claim C7. The start date of \<open>REGSHO.update\<close> is 1 March 2011 when the store does not
  exist and the day after the date parsed from the first field of the store's last line
  otherwise; the end date is today in US/Eastern, one day earlier when the hour is before
  20; the dates fetched are \<open>trading_dates\<close> of the two, which are the trading days of
  the closed range for a calendar whose holidays fall on Mondays to Fridays.
\<close>

theorem update_range:
  "earliest = ymd2ord 2011 3 1 \<and> earliest = 734197
   \<and> update_start strptime None = Inr earliest
   \<and> (lines \<noteq> [] \<and> last lines = field # rest \<and> strptime field = Some d
        \<longrightarrow> update_start strptime (Some lines) = Inr (d + 1))
   \<and> (hour < 20 \<longrightarrow> update_end today hour = today - 1)
   \<and> (20 \<le> hour \<longrightarrow> update_end today hour = today)
   \<and> (update_start strptime store = Inr start_date \<longrightarrow>
        update_dates strptime ust_calendar today hour store
          = trading_dates ust_calendar start_date (update_end today hour)
        \<and> update strptime ust_calendar feed today hour store
          = (case trading_dates ust_calendar start_date (update_end today hour) of
               Inl e \<Rightarrow> (store, [], Some e)
             | Inr dates \<Rightarrow> update_loop feed dates store []))
   \<and> (update_start strptime store = Inr start_date \<and> (\<forall>h\<in>set ust_calendar. weekday h < 5) \<longrightarrow>
        update_dates strptime ust_calendar today hour store
          = Inr (filter (trading_day ust_calendar) [start_date..update_end today hour]))"
proof -
  have a: "lines \<noteq> [] \<and> last lines = field # rest \<and> strptime field = Some d
        \<longrightarrow> update_start strptime (Some lines) = Inr (d + 1)"
    by (simp add: update_start_def store_last_date_def)
  have b: "update_start strptime store = Inr start_date \<longrightarrow>
        update_dates strptime ust_calendar today hour store
          = trading_dates ust_calendar start_date (update_end today hour)
        \<and> update strptime ust_calendar feed today hour store
          = (case trading_dates ust_calendar start_date (update_end today hour) of
               Inl e \<Rightarrow> (store, [], Some e)
             | Inr dates \<Rightarrow> update_loop feed dates store [])"
    by (simp add: update_def update_dates_def)
  have c: "update_start strptime store = Inr start_date \<and> (\<forall>h\<in>set ust_calendar. weekday h < 5) \<longrightarrow>
        update_dates strptime ust_calendar today hour store
          = Inr (filter (trading_day ust_calendar) [start_date..update_end today hour])"
    using trading_dates_eq [of ust_calendar start_date "update_end today hour"]
    by (simp add: update_dates_def)
  show ?thesis
    using a b c earliest_value
    by (simp add: update_start_def update_end_def earliest_def)
qed

text \<open>
  A store whose last line is of 1 March 2011, read on Tuesday 8 March at 19 and at 20
  o'clock, Friday 4 March being a holiday.
\<close>

theorem update_range_witness:
  "update_start sample_strptime (Some [fieldnames, [''20110301'', ''A'', ''100'', ''0'', ''250'', ''Q'']])
     = Inr 734198
   \<and> update_end 734204 19 = 734203
   \<and> update_end 734204 20 = 734204
   \<and> update_dates sample_strptime [734200] 734204 19
        (Some [fieldnames, [''20110301'', ''A'', ''100'', ''0'', ''250'', ''Q'']])
     = Inr [734198, 734199, 734203]"
proof -
  let ?lines = "[fieldnames, [''20110301'', ''A'', ''100'', ''0'', ''250'', ''Q'']]"
  have h: "\<forall>h\<in>set [734200]. weekday h < 5" by (simp add: weekday_def)
  have l: "?lines \<noteq> [] \<and> last ?lines = ''20110301'' # [''A'', ''100'', ''0'', ''250'', ''Q'']
      \<and> sample_strptime ''20110301'' = Some 734197"
    by (simp add: sample_strptime_def)
  have f: "filter (trading_day [734200]) [734198..734203] = [734198, 734199, 734203]"
    by (simp add: trading_day_def weekday_def upto_rec1)
  have n: "(19::nat) < 20" "(20::nat) \<le> 20" by simp_all
  note T = update_range [of sample_strptime ?lines "''20110301''" "[''A'', ''100'', ''0'', ''250'', ''Q'']"
      734197 19 734204 "Some ?lines" "734197 + 1" "[734200]" feed_open]
  from T l have s: "update_start sample_strptime (Some ?lines) = Inr (734197 + 1)" by blast
  from T n have e: "update_end 734204 19 = 734204 - 1" by blast
  from T s h have d: "update_dates sample_strptime [734200] 734204 19 (Some ?lines)
       = Inr (filter (trading_day [734200]) [734197 + 1..update_end 734204 19])"
    by blast
  from update_range [of sample_strptime ?lines "''20110301''" "[''A'', ''100'', ''0'', ''250'', ''Q'']"
      734197 20 734204 "Some ?lines" 734198 "[734200]" feed_open] n
  have e2: "update_end 734204 20 = 734204" by blast
  have d': "update_dates sample_strptime [734200] 734204 19 (Some ?lines) = Inr [734198, 734199, 734203]"
    using d e f by simp
  show ?thesis using s e e2 d' by simp
qed

subsection \<open>The merge of price bars and short volumes\<close>

lemma map_of_keyed: "map_of (map (\<lambda>k. (k, f k)) ks) d = (if d \<in> set ks then Some (f d) else None)"
  by (induction ks) auto

lemma map_of_filter_key:
  "map_of (filter (\<lambda>(k, v). P k) xs) d = (if P d then map_of xs d else None)"
  by (induction xs) auto

lemma map_of_groupby_sum:
  "map_of (groupby_sum rs) d = (if d \<in> Date ` set rs then Some (group_sum rs d) else None)"
  by (simp add: groupby_sum_def map_of_keyed)

lemma dates_groupby_sum: "map fst (groupby_sum rs) = sort (remdups (map Date rs))"
  by (simp add: groupby_sum_def comp_def)

lemma map_of_span_rows:
  "map_of (span_rows lo hi rs) d =
     (if d \<in> Date ` set rs \<and> lo \<le> d \<and> d \<le> hi then Some (group_sum rs d) else None)"
  by (simp add: span_rows_def map_of_filter_key map_of_groupby_sum del: filter_filter)

lemma fst_filter_key: "map fst (filter (\<lambda>(k, v). P k) xs) = filter P (map fst xs)"
  by (induction xs) auto

lemma set_span_rows: "fst ` set (span_rows lo hi rs) = {d \<in> Date ` set rs. lo \<le> d \<and> d \<le> hi}"
proof -
  have "map fst (span_rows lo hi rs) = filter (\<lambda>d. d \<le> hi) (filter (\<lambda>d. lo \<le> d) (sort (remdups (map Date rs))))"
    by (simp add: span_rows_def fst_filter_key dates_groupby_sum del: filter_filter)
  then have "set (map fst (span_rows lo hi rs)) = {d \<in> Date ` set rs. lo \<le> d \<and> d \<le> hi}"
    by auto
  then show ?thesis by simp
qed

lemma merge_short_eq:
  "data \<noteq> [] \<Longrightarrow> merge_short data rs =
     (case concat_columns data (span_rows (fst (hd data)) (fst (last data)) rs) of
        Inl e \<Rightarrow> Inl e | Inr joined \<Rightarrow> Inr (drop_duplicated [] joined))"
  by (simp add: merge_short_def span_rows_def Let_def)

lemma set_union_index: "set (union_index li ri) = set li \<union> set ri"
  by (auto simp: union_index_def)

lemma sorted_union_index: "sorted li \<Longrightarrow> sorted (union_index li ri)"
  by (simp add: union_index_def)

lemma concat_columns_dates:
  "concat_columns left right = Inr joined \<Longrightarrow> map fst joined = union_index (map fst left) (map fst right)"
  by (auto simp: concat_columns_def Let_def comp_def split: if_splits prod.splits intro: map_cong)

lemma map_of_tagged:
  "map_of (map (\<lambda>(d, b). (d, Some b, g d)) left) d = map_option (\<lambda>b. (Some b, g d)) (map_of left d)"
  by (induction left) auto

lemma concat_columns_lookup:
  assumes "concat_columns left right = Inr joined" "map_of joined d = Some (b, s)"
  shows "b = map_of left d \<and> s = map_of right d"
proof (cases "union_index (map fst left) (map fst right) = map fst left")
  case True
  with assms(1) have "joined = map (\<lambda>(d, b). (d, Some b, map_of right d)) left"
    by (simp add: concat_columns_def)
  with assms(2) show ?thesis by (auto simp: map_of_tagged)
next
  case False
  with assms(1) have "joined = map (\<lambda>d. (d, map_of left d, map_of right d))
      (union_index (map fst left) (map fst right))"
    by (simp add: concat_columns_def split: if_splits)
  with assms(2) show ?thesis by (auto simp: map_of_keyed split: if_splits)
qed

lemma drop_duplicated_dates:
  "fst ` set (drop_duplicated seen xs) = fst ` set xs - set seen"
  by (induction seen xs rule: drop_duplicated.induct) auto

lemma drop_duplicated_distinct: "distinct (map fst (drop_duplicated seen xs))"
  by (induction seen xs rule: drop_duplicated.induct) (auto simp: drop_duplicated_dates)

lemma drop_duplicated_first:
  "(d, r) \<in> set (drop_duplicated seen xs) \<Longrightarrow> map_of xs d = Some r"
proof (induction seen xs rule: drop_duplicated.induct)
  case (1 seen)
  then show ?case by simp
next
  case (2 seen d' r' rest)
  show ?case
  proof (cases "d' \<in> set seen")
    case True
    with "2.prems" have in_rest: "(d, r) \<in> set (drop_duplicated seen rest)" by simp
    then have "d \<in> fst ` set (drop_duplicated seen rest)" by force
    then have "d \<notin> set seen" by (simp add: drop_duplicated_dates)
    with True have "d \<noteq> d'" by auto
    then show ?thesis using "2.IH"(1) [OF True in_rest] by simp
  next
    case False
    with "2.prems" consider "(d, r) = (d', r')" | "(d, r) \<in> set (drop_duplicated (d' # seen) rest)"
      by auto
    then show ?thesis
    proof cases
      case 1
      then show ?thesis by simp
    next
      case 2
      then have "d \<in> fst ` set (drop_duplicated (d' # seen) rest)" by force
      then have "d \<noteq> d'" by (simp add: drop_duplicated_dates)
      then show ?thesis using "2.IH"(2) [OF False 2] by simp
    qed
  qed
qed

lemma drop_duplicated_sorted:
  "sorted (map fst xs) \<Longrightarrow> sorted (map fst (drop_duplicated seen xs))"
proof (induction seen xs rule: drop_duplicated.induct)
  case (1 seen)
  then show ?case by simp
next
  case (2 seen d r rest)
  from "2.prems" have s: "sorted (map fst rest)" and le: "\<forall>y\<in>set (map fst rest). d \<le> y" by simp_all
  show ?case
  proof (cases "d \<in> set seen")
    case True
    then show ?thesis using "2.IH"(1) [OF True s] by simp
  next
    case False
    have "\<forall>y\<in>fst ` set (drop_duplicated (d # seen) rest). d \<le> y"
      using le by (auto simp: drop_duplicated_dates)
    then show ?thesis using False "2.IH"(2) [OF False s] by simp
  qed
qed

text \<open>The rows of the merge.\<close>

lemma merge_short_rows:
  assumes "merge_short data rs = Inr merged"
  shows "data \<noteq> []"
    and "distinct (map fst merged)"
    and "set (map fst merged) = set (map fst data)
           \<union> {d \<in> Date ` set rs. fst (hd data) \<le> d \<and> d \<le> fst (last data)}"
    and "(d, b, s) \<in> set merged \<Longrightarrow>
           b = map_of data d \<and>
           s = (if d \<in> Date ` set rs \<and> fst (hd data) \<le> d \<and> d \<le> fst (last data)
                then Some (group_sum rs d) else None)"
    and "sorted (map fst data) \<Longrightarrow> sorted_wrt (<) (map fst merged)"
proof -
  show ne: "data \<noteq> []" using assms by (auto simp: merge_short_def split: if_splits)
  let ?right = "span_rows (fst (hd data)) (fst (last data)) rs"
  from assms ne obtain joined where j: "concat_columns data ?right = Inr joined"
    and m: "merged = drop_duplicated [] joined"
    by (auto simp: merge_short_eq split: sum.splits)
  show "distinct (map fst merged)" by (simp add: m drop_duplicated_distinct)
  show "set (map fst merged) = set (map fst data)
           \<union> {d \<in> Date ` set rs. fst (hd data) \<le> d \<and> d \<le> fst (last data)}"
  proof -
    have "fst ` set joined = set (map fst joined)" by simp
    also have "\<dots> = set (map fst data) \<union> set (map fst ?right)"
      unfolding concat_columns_dates [OF j] by (rule set_union_index)
    finally show ?thesis by (simp add: m drop_duplicated_dates set_span_rows)
  qed
  show "b = map_of data d \<and>
           s = (if d \<in> Date ` set rs \<and> fst (hd data) \<le> d \<and> d \<le> fst (last data)
                then Some (group_sum rs d) else None)" if "(d, b, s) \<in> set merged"
  proof -
    from that have "map_of joined d = Some (b, s)" unfolding m by (rule drop_duplicated_first)
    from concat_columns_lookup [OF j this] show ?thesis by (simp add: map_of_span_rows)
  qed
  show "sorted_wrt (<) (map fst merged)" if "sorted (map fst data)"
  proof -
    have "sorted (map fst joined)"
      using concat_columns_dates [OF j] sorted_union_index [OF that] by simp
    then have "sorted (map fst merged)" unfolding m by (rule drop_duplicated_sorted)
    then show ?thesis by (simp add: strict_sorted_iff m drop_duplicated_distinct)
  qed
qed


lemma sorted_hd_last: "sorted xs \<Longrightarrow> x \<in> set xs \<Longrightarrow> hd xs \<le> x \<and> x \<le> last xs"
proof (induction xs)
  case Nil
  then show ?case by simp
next
  case (Cons a xs)
  show ?case
  proof (cases "xs = []")
    case True
    with Cons.prems show ?thesis by simp
  next
    case False
    from Cons.prems(1) have s: "sorted xs" and le: "\<forall>y\<in>set xs. a \<le> y" by simp_all
    from False have l: "last xs \<in> set xs" by simp
    show ?thesis
    proof (cases "x = a")
      case True
      then show ?thesis using le l False by simp
    next
      case ne: False
      with Cons.prems(2) have "x \<in> set xs" by simp
      then show ?thesis using Cons.IH [OF s] le False by simp
    qed
  qed
qed

lemma merged_in_span:
  assumes "merge_short data rs = Inr merged" "sorted (map fst data)" "(d, b, s) \<in> set merged"
  shows "fst (hd data) \<le> d \<and> d \<le> fst (last data)"
proof -
  note ne = merge_short_rows(1) [OF assms(1)]
  from assms(3) have "d \<in> set (map fst merged)" by force
  then have "d \<in> set (map fst data) \<or> (fst (hd data) \<le> d \<and> d \<le> fst (last data))"
    unfolding merge_short_rows(3) [OF assms(1)] by blast
  moreover have "hd (map fst data) \<le> d \<and> d \<le> last (map fst data)" if "d \<in> set (map fst data)"
    using sorted_hd_last [OF assms(2) that] .
  ultimately show ?thesis using ne by (auto simp: hd_map last_map)
qed









subsection \<open>No day twice in a history store\<close>

lemma trading_dates_in_range:
  "trading_dates cal s e = Inr dates \<Longrightarrow> d \<in> set dates \<Longrightarrow> s \<le> d \<and> d \<le> e"
  by (auto simp: trading_dates_def index_drop_def bdate_range_def Let_def split: if_splits)

lemma download_call_got:
  "download_call yf symbol start end = (Got data, calls) \<Longrightarrow>
     yf symbol start end = Inr data \<and> data \<noteq> [] \<and> calls = [(symbol, start, end)]"
  by (auto simp: download_call_def split: sum.splits if_splits)

lemma try_download_got:
  assumes "try_download cal yf symbol file start end = (Got data, calls)" "keeps_to_request yf"
  shows "data \<noteq> [] \<and> sorted (map fst data)
    \<and> (\<forall>stored. file = Some stored \<longrightarrow> stored \<noteq> [] \<and> (\<forall>d\<in>fst ` set data. fst (last stored) < d))"
proof (cases "file")
  case None
  with assms(1) have "download_call yf symbol start (Some end) = (Got data, calls)"
    by (simp add: try_download_def)
  from download_call_got [OF this] assms(2) show ?thesis
    using None unfolding keeps_to_request_def by blast
next
  case (Some stored)
  with assms(1) obtain dates where ne: "stored \<noteq> []"
    and td: "trading_dates cal (fst (last stored) + 1) end = Inr dates"
    and dne: "dates \<noteq> []"
    and dc: "download_call yf symbol (hd dates) None = (Got data, calls)"
    by (auto simp: try_download_def history_last_date_def split: sum.splits if_splits)
  from download_call_got [OF dc] have yf: "yf symbol (hd dates) None = Inr data" and d: "data \<noteq> []"
    by simp_all
  from yf assms(2) have s: "sorted (map fst data)" and ge: "\<forall>d\<in>set (map fst data). hd dates \<le> d"
    unfolding keeps_to_request_def by blast+
  from dne have "hd dates \<in> set dates" by simp
  from trading_dates_in_range [OF td this] have "fst (last stored) < hd dates" by simp
  with ge have "\<forall>d\<in>fst ` set data. fst (last stored) < d" by auto
  with d s ne Some show ?thesis by simp
qed

lemma ascending_stores_frame:
  "ascending_stores (st\<lparr>downloads := a, printed := b\<rparr>) = ascending_stores st"
  by (simp add: ascending_stores_def)

lemma ascending_append:
  assumes old: "sorted_wrt (<) (map fst stored)" "stored \<noteq> [] \<longrightarrow> (\<forall>d\<in>fst ` set data. fst (last stored) < d)"
    and m: "merge_short data rs = Inr merged" and s: "sorted (map fst data)"
  shows "sorted_wrt (<) (map fst (stored @ merged))"
proof -
  note ne = merge_short_rows(1) [OF m]
  have new: "sorted_wrt (<) (map fst merged)" by (rule merge_short_rows(5) [OF m s])
  have "x < y" if x: "x \<in> set (map fst stored)" and y: "y \<in> set (map fst merged)" for x y
  proof -
    from x have sne: "stored \<noteq> []" by auto
    from old(1) have "sorted (map fst stored)" by (simp add: strict_sorted_iff)
    from sorted_hd_last [OF this x] sne have 1: "x \<le> fst (last stored)" by (simp add: last_map)
    from ne have "fst (hd data) \<in> fst ` set data" by simp
    with old(2) sne have 2: "fst (last stored) < fst (hd data)" by blast
    from y obtain b sv where "(y, b, sv) \<in> set merged" by force
    from merged_in_span [OF m s this] have "fst (hd data) \<le> y" by simp
    with 1 2 show ?thesis by simp
  qed
  then show ?thesis using old(1) new by (simp add: sorted_wrt_append)
qed

lemma update_symbol_ascending:
  assumes k: "keeps_to_request yf" and a: "ascending_stores st"
  shows "ascending_stores (fst (update_symbol cal yf regsho symbol st))"
proof (cases "filter (\<lambda>r. Symbol r = symbol) regsho = []")
  case True
  then show ?thesis using a by (simp add: update_symbol_def)
next
  case False
  let ?short = "filter (\<lambda>r. Symbol r = symbol) regsho"
  let ?t = "try_download cal yf symbol (files st symbol) (Date (hd ?short)) (Date (last ?short) + 1)"
  obtain att calls where t: "?t = (att, calls)" by (cases ?t)
  show ?thesis
  proof (cases att)
    case Current
    then show ?thesis using False t a by (simp add: update_symbol_def Let_def ascending_stores_frame)
  next
    case Failed
    then show ?thesis using False t a by (simp add: update_symbol_def Let_def ascending_stores_frame)
  next
    case (Got data)
    from try_download_got [OF t [unfolded Got] k]
    have s: "sorted (map fst data)"
      and f: "\<forall>stored. files st symbol = Some stored \<longrightarrow> stored \<noteq> [] \<and> (\<forall>d\<in>fst ` set data. fst (last stored) < d)"
      by blast+
    show ?thesis
    proof (cases "merge_short data ?short")
      case (Inl e)
      then show ?thesis using False t Got a
        by (simp add: update_symbol_def Let_def ascending_stores_frame)
    next
      case (Inr merged)
      let ?old = "case files st symbol of None \<Rightarrow> [] | Some stored \<Rightarrow> stored"
      have o1: "sorted_wrt (<) (map fst ?old)"
        using a by (auto simp: ascending_stores_def split: option.splits)
      have o2: "?old \<noteq> [] \<longrightarrow> (\<forall>d\<in>fst ` set data. fst (last ?old) < d)"
        using f by (auto split: option.splits)
      from ascending_append [OF o1 o2 Inr s]
      have n: "sorted_wrt (<) (map fst (?old @ merged))" .
      have "fst (update_symbol cal yf regsho symbol st)
          = st\<lparr>downloads := downloads st @ calls, printed := printed st @ [Fetched_symbol symbol],
               files := (files st)(symbol \<mapsto> ?old @ merged)\<rparr>"
        using False t Got Inr by (simp add: update_symbol_def Let_def)
      then show ?thesis using a n by (simp add: ascending_stores_def)
    qed
  qed
qed

lemma update_symbols_ascending:
  "keeps_to_request yf \<Longrightarrow> ascending_stores st \<Longrightarrow>
     ascending_stores (fst (update_symbols cal yf regsho symbols st))"
proof (induction symbols arbitrary: st)
  case Nil
  then show ?case by simp
next
  case (Cons symbol symbols)
  obtain st' e where u: "update_symbol cal yf regsho symbol st = (st', e)"
    by (cases "update_symbol cal yf regsho symbol st")
  from update_symbol_ascending [OF Cons.prems, of cal regsho symbol] u
  have a': "ascending_stores st'" by simp
  show ?case
  proof (cases e)
    case None
    then show ?thesis using u Cons.IH [OF Cons.prems(1) a'] by simp
  next
    case (Some err)
    then show ?thesis using u a' by simp
  qed
qed

lemma stocks_runs_ascending:
  "\<forall>run\<in>set runs. keeps_to_request (fst run) \<Longrightarrow> ascending_stores st \<Longrightarrow>
     ascending_stores (stocks_runs cal runs st)"
proof (induction runs arbitrary: st)
  case Nil
  then show ?case by simp
next
  case (Cons run runs)
  obtain yf regsho where r: "run = (yf, regsho)" by (cases run)
  from Cons.prems(1) r have k: "keeps_to_request yf" by simp
  have "ascending_stores (fst (stocks_update cal yf regsho st))"
    unfolding stocks_update_def by (rule update_symbols_ascending [OF k Cons.prems(2)])
  moreover from Cons.prems(1) have "\<forall>run\<in>set runs. keeps_to_request (fst run)" by simp
  ultimately show ?case using Cons.IH r by simp
qed


lemma drop_duplicated_subseq: "subseq (drop_duplicated seen xs) xs"
  by (induction seen xs rule: drop_duplicated.induct) auto

text \<open>
  Claim C5 as amended. \<open>drop_duplicated\<close> keeps of every day the first row in encounter
  order and nothing else, in the order of the frame, so the rows appended by one run have
  no day twice. The rows already stored are no part of it: the days of a store stay
  strictly ascending, hence without repeats, over any number of runs provided every
  provider of these runs keeps to its request (bars in chronological order, none before
  the requested start).
\<close>

theorem first_occurrence_kept:
  "distinct (map fst (drop_duplicated [] joined))
   \<and> fst ` set (drop_duplicated [] joined) = fst ` set joined
   \<and> subseq (drop_duplicated [] joined) joined
   \<and> (\<forall>(d, r)\<in>set (drop_duplicated [] joined). map_of joined d = Some r)
   \<and> (merge_short data short_data = Inr merged \<longrightarrow> distinct (map fst merged))
   \<and> ((\<forall>run\<in>set runs. keeps_to_request (fst run)) \<and> ascending_stores st \<longrightarrow>
        (\<forall>symbol stored. files (stocks_runs ust_calendar runs st) symbol = Some stored \<longrightarrow>
           sorted_wrt (<) (map fst stored) \<and> distinct (map fst stored)))"
proof (intro conjI impI allI)
  show "distinct (map fst (drop_duplicated [] joined))" by (rule drop_duplicated_distinct)
  show "fst ` set (drop_duplicated [] joined) = fst ` set joined"
    by (simp add: drop_duplicated_dates)
  show "subseq (drop_duplicated [] joined) joined" by (rule drop_duplicated_subseq)
  show "\<forall>(d, r)\<in>set (drop_duplicated [] joined). map_of joined d = Some r"
    using drop_duplicated_first [of _ _ "[]" joined] by auto
  show "distinct (map fst merged)" if "merge_short data short_data = Inr merged"
    by (rule merge_short_rows(2) [OF that])
next
  fix symbol stored
  assume a: "(\<forall>run\<in>set runs. keeps_to_request (fst run)) \<and> ascending_stores st"
    and f: "files (stocks_runs ust_calendar runs st) symbol = Some stored"
  from a have "ascending_stores (stocks_runs ust_calendar runs st)"
    using stocks_runs_ascending [of runs st ust_calendar] by blast
  with f have s: "sorted_wrt (<) (map fst stored)" unfolding ascending_stores_def by blast
  then show "sorted_wrt (<) (map fst stored)" .
  from s show "distinct (map fst stored)" by (simp add: strict_sorted_iff)
qed

text \<open>
  Claim C5 fails on the code. The store of \<open>X\<close> holds 1 March 2011; the bars fetched for
  the start 2 March overlap it with a bar of 1 March: after the run the store has 1 March
  twice.
\<close>

theorem overlapping_fetch_counterexample:
  "files stocks_sample ''X'' = Some [(734197, Some 10, Some (150, 0, 300))]
   \<and> provider_overlap ''X'' 734198 None = Inr [(734197, 10), (734198, 11)]
   \<and> files (fst (stocks_update [] provider_overlap regsho_sample stocks_sample)) ''X''
     = Some [(734197, Some 10, Some (150, 0, 300)), (734197, Some 10, Some (150, 0, 300)),
             (734198, Some 11, Some (7, 0, 14))]"
  by code_simp

lemma runs_sample:
  "files (stocks_runs [] [(provider_daily, regsho_sample), (provider_daily, regsho_sample)] stocks_sample) ''X''
     = Some [(734197, Some 10, Some (150, 0, 300)), (734198, Some 11, Some (7, 0, 14)),
             (734199, Some 11, Some (9, 0, 18))]"
  by code_simp

text \<open>
  A frame with 1 March twice, and two runs with a provider that keeps to its request.
\<close>

theorem first_occurrence_kept_witness:
  "drop_duplicated [] [(734197::int, ''a''), (734198, ''b''), (734197, ''c'')]
     = [(734197, ''a''), (734198, ''b'')]
   \<and> files (stocks_runs [] [(provider_daily, regsho_sample), (provider_daily, regsho_sample)] stocks_sample) ''X''
     = Some [(734197, Some 10, Some (150, 0, 300)), (734198, Some 11, Some (7, 0, 14)),
             (734199, Some 11, Some (9, 0, 18))]
   \<and> distinct (map fst [(734197::int, Some (10::nat), Some (150::int, 0::int, 300::int)),
                         (734198, Some 11, Some (7, 0, 14)), (734199, Some 11, Some (9, 0, 18))])"
proof -
  let ?runs = "[(provider_daily, regsho_sample), (provider_daily, regsho_sample)]"
  have k: "\<forall>run\<in>set ?runs. keeps_to_request (fst run)"
    by (simp add: keeps_to_request_def provider_daily_def)
  have a: "ascending_stores stocks_sample"
    by (simp add: ascending_stores_def stocks_sample_def)
  have d: "drop_duplicated [] [(734197::int, ''a''), (734198, ''b''), (734197, ''c'')]
     = [(734197, ''a''), (734198, ''b'')]" by simp
  from first_occurrence_kept [of "[]" "[]" "[]" "[]" ?runs stocks_sample "[]"] k a runs_sample
  have "distinct (map fst [(734197::int, Some (10::nat), Some (150::int, 0::int, 300::int)),
                         (734198, Some 11, Some (7, 0, 14)), (734199, Some 11, Some (9, 0, 18))])"
    by blast
  then show ?thesis using d runs_sample by blast
qed

subsection \<open>Running again\<close>





























end
